theory Spec2Isabelle
  imports Main "HOL-Library.Word"
begin

section \<open>Raw command strings (internal/telegram/render.go)\<close>

text \<open>
  Go strings are byte sequences; they are modelled as \<open>string\<close>, one \<open>char\<close> per byte.
  The separator \<^verbatim>\<open>"\u001f"\<close> of the source is the single byte 0x1F in UTF-8.
\<close>

definition US :: char where
  "US = CHR 0x1F"

text \<open>
  \<^verbatim>\<open>strings.Split(s, sep)\<close> for a one-byte separator: the pieces between the
  occurrences of the separator, in order; a string without separator (the empty
  string too) gives one piece.
\<close>

primrec Split :: "char \<Rightarrow> string \<Rightarrow> string list" where
  "Split c [] = [[]]"
| "Split c (x # xs) =
     (if x = c then [] # Split c xs
      else (case Split c xs of
              [] \<Rightarrow> [[x]]
            | p # ps \<Rightarrow> (x # p) # ps))"

datatype panic = IndexOutOfRange | TypeAssertion

text \<open>
  \<^verbatim>\<open>
  func ParseHackernelCmd(cmd string) (workdir string, exec string, argv string) {
      raw := strings.Split(cmd, "\u001f")
      workdir = raw[0]
      exec = raw[1]
      argv = raw[2]
      for i := 3; i < len(raw); i++ {
          argv += fmt.Sprintf(" %s", raw[i])
      }
      return
  }
  \<close>
  The reads \<open>raw[1]\<close> and \<open>raw[2]\<close> are unguarded: with fewer than three pieces Go
  panics with an index out of range, which is the \<open>Inl\<close> branch here.
\<close>

definition ParseHackernelCmd :: "string \<Rightarrow> panic + (string \<times> string \<times> string)" where
  "ParseHackernelCmd cmd =
     (case Split US cmd of
        workdir # exec # argv # rest \<Rightarrow>
          Inr (workdir, exec, foldl (\<lambda>acc r. acc @ '' '' @ r) argv rest)
      | _ \<Rightarrow> Inl IndexOutOfRange)"

text \<open>
  The two joins of the specification's round trip (the encoding itself is produced by
  the kernel module, not by this repository): the pieces of a raw command joined by
  the separator, and the argument tokens joined by one space.
\<close>

fun join_with :: "char \<Rightarrow> string list \<Rightarrow> string" where
  "join_with c [] = []"
| "join_with c [x] = x"
| "join_with c (x # y # ys) = x @ c # join_with c (y # ys)"

definition encode_cmd :: "string \<Rightarrow> string \<Rightarrow> string list \<Rightarrow> string" where
  "encode_cmd workdir exec toks = join_with US (workdir # exec # toks)"

definition space_joined :: "string list \<Rightarrow> string" where
  "space_joined toks = join_with CHR '' '' toks"

section \<open>The channel to the kernel module, and what a worker can change\<close>

text \<open>
  The messages a worker sends. The source writes them as JSON text: the literals
  \<^verbatim>\<open>{"type":"user::proc::enable"}\<close>, \<^verbatim>\<open>{"type":"user::proc::disable"}\<close>,
  \<^verbatim>\<open>{"type":"user::msg::sub","section":...}\<close>, \<^verbatim>\<open>{"type":"user::msg::unsub","section":...}\<close>
  and, in \<open>setTrustedCmd\<close>, the marshalled map with \<open>type\<close>
  \<^verbatim>\<open>user::proc::trusted::insert\<close> and a string under \<open>cmd\<close>; each stands for the JSON
  document, whose strings are given as a reader of the document decodes them.
\<close>

datatype outmsg =
    ProcEnable
  | ProcDisable
  | MsgSub string
  | MsgUnsub string
  | TrustedInsert string

text \<open>
  Every call into \<open>database/sql\<close> can return an error. A \<open>dbstep\<close> names the call
  of a function at which the driver fails, in the order of the source: the second
  \<open>Prepare\<close> or \<open>Exec\<close> of a function is \<open>AtPrepare2\<close>, \<open>AtExec2\<close>; \<open>AtRow k\<close> is a
  failure of the cursor (\<open>rows.Next\<close>, \<open>rows.Scan\<close> or the final \<open>rows.Err\<close>) after
  \<open>k\<close> rows have been read. A function is given \<open>None\<close> when the driver does not
  fail, and ignores a step it does not have.
\<close>

datatype dbstep =
    AtOpen | AtPrepare | AtExec | AtRowsAffected | AtPrepare2 | AtExec2
  | AtQuery | AtRow nat | AtConfig

datatype error = ConnError | JSONError | SQLError dbstep | NoSuchTable

datatype logline = ErrorLine error | TextLine string

text \<open>The four places of the richer worker that send the process SIGINT.\<close>

datatype site = KillTimeout | KillRecv | KillDecode | KillStore

text \<open>
  What a worker reads and writes: its \<open>running\<close> flag, its table in the SQLite file
  (\<open>None\<close> while the table has not been created; the rows in insertion order), the
  \<open>Send\<close> calls made on the connector, the lines given to \<open>logrus.Error\<close>, the
  SIGINT signals sent to the own process, and whether \<open>Shutdown\<close>, \<open>wg.Wait\<close> and
  \<open>Close\<close> have been called.
\<close>

record 'r world =
  running :: bool
  table :: "'r list option"
  sends :: "outmsg list"
  logged :: "logline list"
  kills :: "site list"
  shut :: bool
  joined :: bool
  closed :: bool

text \<open>
  \<open>conn.Send\<close>. The connector (package \<open>uranus/pkg/connector\<close>) is outside the
  sources; whether a call fails is given by \<open>net\<close>, asked with the number of
  \<open>Send\<close> calls made before this one.
\<close>

definition Send :: "(nat \<Rightarrow> bool) \<Rightarrow> outmsg \<Rightarrow> 'r world \<Rightarrow> error option \<times> 'r world" where
  "Send net m w =
     (if net (length (sends w)) then Some ConnError else None,
      w\<lparr>sends := sends w @ [m]\<rparr>)"

text \<open>
  \<open>json.Marshal\<close> writes a Go string as a JSON string: it keeps every byte below 0x80
  and every well-formed UTF-8 sequence (behind reversible escapes), and writes the
  replacement character U+FFFD for every byte at which \<open>utf8.DecodeRuneInString\<close>
  finds no well-formed sequence. \<open>rune_size\<close> is the length of the well-formed
  sequence at the head of a string, 0 when there is none: one byte below 0x80; a
  lead byte 0xC2 to 0xDF, 0xE0 to 0xEF or 0xF0 to 0xF4 followed by one, two or three
  continuation bytes 0x80 to 0xBF, where the first continuation byte is at least 0xA0
  after 0xE0, at most 0x9F after 0xED, at least 0x90 after 0xF0 and at most 0x8F
  after 0xF4.
\<close>

definition in_range :: "nat \<Rightarrow> nat \<Rightarrow> char \<Rightarrow> bool" where
  "in_range lo hi c \<longleftrightarrow> lo \<le> of_char c \<and> of_char c \<le> hi"

definition rune_size :: "string \<Rightarrow> nat" where
  "rune_size s =
     (case s of
        [] \<Rightarrow> 0
      | b # bs \<Rightarrow>
          if in_range 0x00 0x7F b then 1
          else if in_range 0xC2 0xDF b then
            (case bs of
               c1 # _ \<Rightarrow> if in_range 0x80 0xBF c1 then 2 else 0
             | _ \<Rightarrow> 0)
          else if in_range 0xE0 0xEF b then
            (case bs of
               c1 # c2 # _ \<Rightarrow>
                 if in_range (if in_range 0xE0 0xE0 b then 0xA0 else 0x80)
                             (if in_range 0xED 0xED b then 0x9F else 0xBF) c1
                    \<and> in_range 0x80 0xBF c2
                 then 3 else 0
             | _ \<Rightarrow> 0)
          else if in_range 0xF0 0xF4 b then
            (case bs of
               c1 # c2 # c3 # _ \<Rightarrow>
                 if in_range (if in_range 0xF0 0xF0 b then 0x90 else 0x80)
                             (if in_range 0xF4 0xF4 b then 0x8F else 0xBF) c1
                    \<and> in_range 0x80 0xBF c2 \<and> in_range 0x80 0xBF c3
                 then 4 else 0
             | _ \<Rightarrow> 0)
          else 0)"

text \<open>
  The string that a reader of the JSON text gets back: \<open>copy_runes k s\<close> copies the
  \<open>k\<close> bytes that are left of a sequence already found well-formed, then goes
  through \<open>s\<close> sequence by sequence and puts the three bytes of U+FFFD in the place
  of each byte that starts none.
\<close>

fun copy_runes :: "nat \<Rightarrow> string \<Rightarrow> string" where
  "copy_runes k [] = []"
| "copy_runes (Suc k) (b # bs) = b # copy_runes k bs"
| "copy_runes 0 (b # bs) =
     (case rune_size (b # bs) of
        0 \<Rightarrow> [CHR 0xEF, CHR 0xBF, CHR 0xBD] @ copy_runes 0 bs
      | Suc n \<Rightarrow> b # copy_runes n bs)"

definition marshalled :: "string \<Rightarrow> string" where
  "marshalled s = copy_runes 0 s"

text \<open>
  \<open>setTrustedCmd\<close>, the same in both packages: marshal the two-entry string map
  (which cannot fail) and send it.
  \<^verbatim>\<open>
  data := map[string]string{"type": "user::proc::trusted::insert", "cmd": cmd}
  b, err := json.Marshal(data)
  if err != nil { return }
  err = w.conn.Send(string(b))
  \<close>
  \<open>TrustedInsert c\<close> is the message whose \<open>cmd\<close> member reads \<open>c\<close>; what is sent for a
  command is the message of the command as marshalled.
\<close>

definition setTrustedCmd :: "(nat \<Rightarrow> bool) \<Rightarrow> string \<Rightarrow> 'r world \<Rightarrow> error option \<times> 'r world" where
  "setTrustedCmd net cmd w = Send net (TrustedInsert (marshalled cmd)) w"

definition log_error :: "error \<Rightarrow> 'r world \<Rightarrow> 'r world" where
  "log_error e w = w\<lparr>logged := logged w @ [ErrorLine e]\<rparr>"

text \<open>
  The replay loop of \<open>initTrustedCmd\<close>, the same in both packages, over the commands
  the query selected:
  \<^verbatim>\<open>
  for rows.Next() {
      var cmd string
      err = rows.Scan(&cmd)
      if err != nil { return }
      w.setTrustedCmd(cmd)
  }
  err = rows.Err()
  \<close>
  The result of \<open>setTrustedCmd\<close> is dropped.
\<close>

fun replay :: "(nat \<Rightarrow> bool) \<Rightarrow> dbstep option \<Rightarrow> nat \<Rightarrow> string list \<Rightarrow> 'r world
    \<Rightarrow> error option \<times> 'r world" where
  "replay net f k [] w =
     (if f = Some (AtRow k) then Some (SQLError (AtRow k)) else None, w)"
| "replay net f k (c # cs) w =
     (if f = Some (AtRow k) then (Some (SQLError (AtRow k)), w)
      else replay net f (Suc k) cs (snd (setTrustedCmd net c w)))"

text \<open>
  The primary key of both tables is \<open>integer primary key autoincrement\<close>: a new row
  gets an id above every id of the table (no row is ever deleted).
\<close>

definition next_id :: "nat list \<Rightarrow> nat" where
  "next_id ids = Suc (foldr max ids 0)"

section \<open>The simpler worker (package judge)\<close>

text \<open>
  Table \<^verbatim>\<open>judge(id integer primary key autoincrement, cmd blob not null,
  times integer default 1)\<close>.
\<close>

record judge_row =
  jid :: nat
  jcmd :: string
  jtimes :: int

text \<open>Go's \<open>int\<close> is 64 bits wide here: \<open>times + 1\<close> wraps.\<close>

definition wrap64 :: "int \<Rightarrow> int" where
  "wrap64 x = (x + 2 ^ 63) mod 2 ^ 64 - 2 ^ 63"

text \<open>
  \<open>updateCmdTimes\<close>: \<^verbatim>\<open>select id, times from judge where cmd=? limit 1\<close> (the first
  row of the command, in table order); without a row (\<open>sql.ErrNoRows\<close>)
  \<^verbatim>\<open>insert into judge(cmd) values(?)\<close> and \<open>times = 1\<close>; otherwise \<open>times = times + 1\<close> and
  \<^verbatim>\<open>update judge set times=? where id=?\<close>. Returns \<open>(times, err)\<close>; the caller reads
  \<open>times\<close> only when \<open>err\<close> is nil.
\<close>

definition updateCmdTimes :: "dbstep option \<Rightarrow> string \<Rightarrow> judge_row world
    \<Rightarrow> (error + int) \<times> judge_row world" where
  "updateCmdTimes f cmd w =
     (if f = Some AtOpen then (Inl (SQLError AtOpen), w)
      else if f = Some AtPrepare then (Inl (SQLError AtPrepare), w)
      else case table w of
        None \<Rightarrow> (Inl NoSuchTable, w)
      | Some rows \<Rightarrow>
          if f = Some AtQuery then (Inl (SQLError AtQuery), w)
          else (case find (\<lambda>r. jcmd r = cmd) rows of
            None \<Rightarrow>
              if f = Some AtPrepare2 then (Inl (SQLError AtPrepare2), w)
              else if f = Some AtExec2 then (Inl (SQLError AtExec2), w)
              else
                (Inr 1,
                 w\<lparr>table := Some (rows @
                     [\<lparr>jid = next_id (map jid rows), jcmd = cmd, jtimes = 1\<rparr>])\<rparr>)
          | Some r \<Rightarrow>
              (let ntimes = wrap64 (jtimes r + 1) in
               if f = Some AtPrepare2 then (Inl (SQLError AtPrepare2), w)
               else if f = Some AtExec2 then (Inl (SQLError AtExec2), w)
               else
                 (Inr ntimes,
                  w\<lparr>table := Some (map (\<lambda>x. if jid x = jid r then x\<lparr>jtimes := ntimes\<rparr> else x)
                                     rows)\<rparr>))))"

text \<open>\<open>initTrustedCmd\<close>: \<^verbatim>\<open>select cmd from judge where times >= ?\<close> with 3.\<close>

definition initTrustedCmd_judge :: "(nat \<Rightarrow> bool) \<Rightarrow> dbstep option \<Rightarrow> judge_row world
    \<Rightarrow> error option \<times> judge_row world" where
  "initTrustedCmd_judge net f w =
     (if f = Some AtOpen then (Some (SQLError AtOpen), w)
      else if f = Some AtPrepare then (Some (SQLError AtPrepare), w)
      else case table w of
        None \<Rightarrow> (Some NoSuchTable, w)
      | Some rows \<Rightarrow>
          if f = Some AtQuery then (Some (SQLError AtQuery), w)
          else replay net f 0 (map jcmd (filter (\<lambda>r. 3 \<le> jtimes r) rows)) w)"

text \<open>
  One pass of a receive loop is given what the world outside the loop does during it:
  whether the control thread has cleared \<open>running\<close> by the time the loop condition is
  tested (\<open>halt_top\<close>), the nanoseconds that pass while \<open>Recv\<close> blocks (\<open>elapsed\<close>),
  what \<open>Recv\<close> returns, whether \<open>running\<close> has been cleared by the time it returns
  (\<open>halt_recv\<close>), and the failure of the database driver in this pass, if any.
\<close>

record tick =
  halt_top :: bool
  elapsed :: nat
  recv :: "error + string"
  halt_recv :: bool
  fault :: "dbstep option"

text \<open>
  How a receive loop is found after the passes it was given: returned, blocked in
  \<open>Recv\<close>, or crashed by a panic of its goroutine.
\<close>

datatype exit = Returned | Blocked | Crashed panic

text \<open>
  \<^verbatim>\<open>for w.running { ... }\<close>: a pass either goes on to the next one or leaves the
  loop; with no pass left the loop has returned if \<open>running\<close> is clear and sits in
  \<open>Recv\<close> otherwise.
\<close>

fun loop :: "('i \<Rightarrow> 's \<Rightarrow> 's \<times> exit option) \<Rightarrow> ('s \<Rightarrow> bool) \<Rightarrow> 's \<Rightarrow> 'i list \<Rightarrow> 's \<times> exit" where
  "loop pass alive s [] = (s, if alive s then Blocked else Returned)"
| "loop pass alive s (i # is) =
     (case pass i s of
        (s', None) \<Rightarrow> loop pass alive s' is
      | (s', Some x) \<Rightarrow> (s', x))"

definition halt :: "bool \<Rightarrow> 'r world \<Rightarrow> 'r world" where
  "halt h w = (if h then w\<lparr>running := False\<rparr> else w)"

text \<open>
  The values \<open>encoding/json\<close> stores in an \<^verbatim>\<open>interface{}\<close>. The worker only asks
  whether a value is a string.
\<close>

datatype jvalue =
    JNil
  | JBool bool
  | JNumber int
  | JString string
  | JArray "jvalue list"
  | JObject "(string \<times> jvalue) list"

text \<open>
  One pass of \<open>run\<close> in package judge. \<open>unmarshal\<close> stands for \<open>json.Unmarshal\<close> into a
  \<^verbatim>\<open>map[string]interface{}\<close> (\<open>None\<close> when it returns an error). The type assertions
  \<^verbatim>\<open>doc["type"].(string)\<close> and \<^verbatim>\<open>doc["cmd"].(string)\<close> have no \<open>ok\<close> result, so they
  panic on an absent key and on a value that is not a string.
  \<^verbatim>\<open>
  for w.running {
      msg, err := w.conn.Recv()
      if err != nil {
          if w.running { logrus.Error(err) }
          continue
      }
      var doc map[string]interface{}
      err = json.Unmarshal([]byte(msg), &doc)
      if err != nil { logrus.Error(err); continue }
      if doc["type"].(string) != "audit::proc::report" { continue }
      cmd := doc["cmd"].(string)
      times, err := w.updateCmdTimes(cmd)
      if err != nil { logrus.Error(err); continue }
      if times < 3 { continue }
      if err := w.setTrustedCmd(cmd); err != nil { logrus.Error(err) }
  }
  w.wg.Done()
  \<close>
\<close>

definition pass_judge :: "(string \<Rightarrow> (string \<rightharpoonup> jvalue) option) \<Rightarrow> (nat \<Rightarrow> bool) \<Rightarrow> tick
    \<Rightarrow> judge_row world \<Rightarrow> judge_row world \<times> exit option" where
  "pass_judge unmarshal net i w =
     (let w0 = halt (halt_top i) w in
      if \<not> running w0 then (w0, Some Returned)
      else
        let w1 = halt (halt_recv i) w0 in
        case recv i of
          Inl e \<Rightarrow> (if running w1 then log_error e w1 else w1, None)
        | Inr msg \<Rightarrow>
            (case unmarshal msg of
               None \<Rightarrow> (log_error JSONError w1, None)
             | Some doc \<Rightarrow>
                 (case doc ''type'' of
                    Some (JString t) \<Rightarrow>
                      if t \<noteq> ''audit::proc::report'' then (w1, None)
                      else (case doc ''cmd'' of
                        Some (JString cmd) \<Rightarrow>
                          (case updateCmdTimes (fault i) cmd w1 of
                             (Inl e, w2) \<Rightarrow> (log_error e w2, None)
                           | (Inr ntimes, w2) \<Rightarrow>
                               if ntimes < 3 then (w2, None)
                               else (case setTrustedCmd net cmd w2 of
                                 (Some e, w3) \<Rightarrow> (log_error e w3, None)
                               | (None, w3) \<Rightarrow> (w3, None)))
                      | _ \<Rightarrow> (w1, Some (Crashed TypeAssertion)))
                  | _ \<Rightarrow> (w1, Some (Crashed TypeAssertion)))))"

definition run_judge :: "(string \<Rightarrow> (string \<rightharpoonup> jvalue) option) \<Rightarrow> (nat \<Rightarrow> bool)
    \<Rightarrow> judge_row world \<Rightarrow> tick list \<Rightarrow> judge_row world \<times> exit" where
  "run_judge unmarshal net w ticks = loop (pass_judge unmarshal net) running w ticks"

text \<open>
  \<open>Stop\<close> in package judge. \<open>shutdown_fails\<close> says whether \<open>conn.Shutdown\<close> returns an
  error. The sleep of one second changes nothing here; \<open>wg.Wait\<close> is the join of the
  receive loop.
  \<^verbatim>\<open>
  err = w.conn.Send(`{"type":"user::msg::unsub","section":"audit::proc::report"}`)
  if err != nil { return }
  err = w.conn.Send(`{"type":"user::proc::disable"}`)
  if err != nil { return }
  time.Sleep(time.Second)
  w.running = false
  err = w.conn.Shutdown()
  if err != nil { return }
  w.wg.Wait()
  w.conn.Close()
  return
  \<close>
\<close>

definition finish_Stop :: "bool \<Rightarrow> 'r world \<Rightarrow> error option \<times> 'r world" where
  "finish_Stop shutdown_fails w =
     (let w1 = w\<lparr>running := False, shut := True\<rparr> in
      if shutdown_fails then (Some ConnError, w1)
      else (None, w1\<lparr>joined := True, closed := True\<rparr>))"

definition Stop_judge :: "(nat \<Rightarrow> bool) \<Rightarrow> bool \<Rightarrow> judge_row world
    \<Rightarrow> error option \<times> judge_row world" where
  "Stop_judge net shutdown_fails w =
     (case Send net (MsgUnsub ''audit::proc::report'') w of
        (Some e, w1) \<Rightarrow> (Some e, w1)
      | (None, w1) \<Rightarrow>
          (case Send net ProcDisable w1 of
             (Some e, w2) \<Rightarrow> (Some e, w2)
           | (None, w2) \<Rightarrow> finish_Stop shutdown_fails w2))"

section \<open>The richer worker (package background)\<close>

text \<open>
  Table \<^verbatim>\<open>process(id integer primary key autoincrement, cmd blob not null unique,
  workdir text not null, binary text not null, argv text not null,
  count integer not null, judge integer not null, status integer not null)\<close>.
\<close>

record process_row =
  pid :: nat
  pcmd :: string
  pworkdir :: string
  pbinary :: string
  pargv :: string
  pcount :: int
  pjudge :: int
  pstatus :: int

text \<open>
  \<^verbatim>\<open>count=count+1\<close> is computed by SQLite. On a 64-bit integer it is the integer
  sum; when that leaves the 64-bit range SQLite gives the floating-point sum, so the
  largest integer becomes \<open>2 ^ 63\<close>. A value outside the 64-bit range stands for the
  floating-point number SQLite holds then, and adding 1 to a floating-point number
  of that size gives the same number back.
\<close>

definition sqlite_incr :: "int \<Rightarrow> int" where
  "sqlite_incr c =
     (if - (2 ^ 63) \<le> c \<and> c < 2 ^ 63 - 1 then c + 1
      else if c = 2 ^ 63 - 1 then 2 ^ 63
      else c)"

text \<open>
  \<open>initDB\<close>: \<open>sqlCreateTable\<close> (\<^verbatim>\<open>create table if not exists\<close>), \<open>sqlCreateIndex\<close>
  (\<^verbatim>\<open>create unique index if not exists\<close>), then \<open>config.New\<close>.
\<close>

definition initDB :: "dbstep option \<Rightarrow> process_row world \<Rightarrow> error option \<times> process_row world" where
  "initDB f w =
     (if f = Some AtOpen then (Some (SQLError AtOpen), w)
      else if f = Some AtExec then (Some (SQLError AtExec), w)
      else
        let w1 = w\<lparr>table := Some (case table w of None \<Rightarrow> [] | Some rows \<Rightarrow> rows)\<rparr> in
        if f = Some AtExec2 then (Some (SQLError AtExec2), w1)
        else if f = Some AtConfig then (Some (SQLError AtConfig), w1)
        else (None, w1))"

text \<open>\<open>initTrustedCmd\<close>: \<^verbatim>\<open>select cmd from process where status=2\<close>.\<close>

definition initTrustedCmd :: "(nat \<Rightarrow> bool) \<Rightarrow> dbstep option \<Rightarrow> process_row world
    \<Rightarrow> error option \<times> process_row world" where
  "initTrustedCmd net f w =
     (if f = Some AtOpen then (Some (SQLError AtOpen), w)
      else if f = Some AtPrepare then (Some (SQLError AtPrepare), w)
      else case table w of
        None \<Rightarrow> (Some NoSuchTable, w)
      | Some rows \<Rightarrow>
          if f = Some AtQuery then (Some (SQLError AtQuery), w)
          else replay net f 0 (map pcmd (filter (\<lambda>r. pstatus r = 2) rows)) w)"

text \<open>
  \<open>updateCmd\<close>. \<open>SplitCmd\<close> stands for \<open>process.SplitCmd\<close> of package
  \<open>uranus/pkg/process\<close>, which is outside the sources.
  \<^verbatim>\<open>
  stmt, err := db.Prepare(sqlUpdateCount)   // update process set count=count+1,judge=? where cmd=?
  ...
  result, err := stmt.Exec(judge, cmd)
  if err != nil { return }
  affected, err := result.RowsAffected()
  if err != nil || affected != 0 { return }
  stmt, err = db.Prepare(sqlInsert)  // insert into process(cmd,workdir,binary,argv,count,judge,status)
                                     //   values(?,?,?,?,1,?,0)
  ...
  workdir, binary, argv := process.SplitCmd(cmd)
  _, err = stmt.Exec(cmd, workdir, binary, argv, judge)
  \<close>
\<close>

definition updateCmd :: "(string \<Rightarrow> string \<times> string \<times> string) \<Rightarrow> dbstep option \<Rightarrow> string \<Rightarrow> int
    \<Rightarrow> process_row world \<Rightarrow> error option \<times> process_row world" where
  "updateCmd SplitCmd f cmd judge w =
     (if f = Some AtOpen then (Some (SQLError AtOpen), w)
      else if f = Some AtPrepare then (Some (SQLError AtPrepare), w)
      else case table w of
        None \<Rightarrow> (Some NoSuchTable, w)
      | Some rows \<Rightarrow>
          if f = Some AtExec then (Some (SQLError AtExec), w)
          else
            let affected = length (filter (\<lambda>r. pcmd r = cmd) rows);
                rows1 = map (\<lambda>r. if pcmd r = cmd
                                  then r\<lparr>pcount := sqlite_incr (pcount r), pjudge := judge\<rparr>
                                  else r) rows;
                w1 = w\<lparr>table := Some rows1\<rparr>
            in
            if f = Some AtRowsAffected then (Some (SQLError AtRowsAffected), w1)
            else if affected \<noteq> 0 then (None, w1)
            else if f = Some AtPrepare2 then (Some (SQLError AtPrepare2), w1)
            else if f = Some AtExec2 then (Some (SQLError AtExec2), w1)
            else
              (case SplitCmd cmd of (workdir, binary, argv) \<Rightarrow>
                 (None,
                  w1\<lparr>table := Some (rows1 @
                      [\<lparr>pid = next_id (map pid rows1), pcmd = cmd, pworkdir = workdir,
                        pbinary = binary, pargv = argv, pcount = 1, pjudge = judge,
                        pstatus = 0\<rparr>])\<rparr>)))"

text \<open>
  Modelled from the spec: package \<open>uranus/pkg/watchdog\<close> (\<open>watchdog.New\<close>, \<open>Kick\<close>) is
  outside the sources. The specification says: a watchdog is configured with a fixed
  interval and a callback; \<open>kick\<close> resets the deadline; if no kick occurs within the
  interval, the callback fires exactly once per arming and is not rearmed unless
  kicked again afterward. Time is counted in nanoseconds, as \<open>time.Duration\<close> does;
  \<open>remaining\<close> is the time left to the deadline, \<open>None\<close> once the callback has fired.
\<close>

record watchdog =
  interval :: nat
  remaining :: "nat option"

text \<open>
  Modelled from the spec: \<open>watchdog.New\<close>, which is outside the sources; the watchdog
  is armed from its creation, the deadline one interval away.
\<close>

definition New :: "nat \<Rightarrow> watchdog" where
  "New d = \<lparr>interval = d, remaining = Some d\<rparr>"

text \<open>
  Modelled from the spec: \<open>Kick\<close>, which is outside the sources; it resets the
  deadline to one interval from now, also after the callback has fired.
\<close>

definition Kick :: "watchdog \<Rightarrow> watchdog" where
  "Kick dog = dog\<lparr>remaining := Some (interval dog)\<rparr>"

text \<open>
  Modelled from the spec: the passing of \<open>d\<close> nanoseconds for a watchdog; the result
  says whether the callback fired in that time.
\<close>

definition pass_time :: "nat \<Rightarrow> watchdog \<Rightarrow> bool \<times> watchdog" where
  "pass_time d dog =
     (case remaining dog of
        None \<Rightarrow> (False, dog)
      | Some r \<Rightarrow> if r \<le> d then (True, dog\<lparr>remaining := None\<rparr>)
                  else (False, dog\<lparr>remaining := Some (r - d)\<rparr>))"

definition Second :: nat where
  "Second = 1000000000"

text \<open>
  The callback given to \<open>watchdog.New\<close> in \<open>run\<close>:
  \<^verbatim>\<open>
  func() {
      logrus.Error("osinfo::report timeout")
      syscall.Kill(syscall.Getpid(), syscall.SIGINT)
  }
  \<close>
\<close>

definition on_timeout :: "'r world \<Rightarrow> 'r world" where
  "on_timeout w =
     w\<lparr>logged := logged w @ [TextLine ''osinfo::report timeout''],
       kills := kills w @ [KillTimeout]\<rparr>"

text \<open>\<^verbatim>\<open>logrus.Error(err); syscall.Kill(syscall.Getpid(), syscall.SIGINT)\<close>\<close>

definition fatal :: "site \<Rightarrow> error \<Rightarrow> 'r world \<Rightarrow> 'r world" where
  "fatal s e w = (log_error e w)\<lparr>kills := kills w @ [s]\<rparr>"

text \<open>
  Time passing for the worker and the watchdog of its receive loop: the callback
  runs when the watchdog fires.
\<close>

definition idle :: "nat \<Rightarrow> 'r world \<times> watchdog \<Rightarrow> 'r world \<times> watchdog" where
  "idle d s =
     (case s of (w, dog) \<Rightarrow>
        (case pass_time d dog of
           (fired, dog1) \<Rightarrow> (if fired then on_timeout w else w, dog1)))"

text \<open>The struct \<open>json.Unmarshal\<close> fills in \<open>run\<close>.\<close>

record event =
  Type :: string
  Cmd :: string
  Judge :: int

text \<open>
  One pass of \<open>run\<close> in package background. \<open>unmarshal\<close> stands for \<open>json.Unmarshal\<close>
  into the event struct (\<open>None\<close> when it returns an error); a field the message does
  not have keeps its zero value.
  \<^verbatim>\<open>
  for w.running {
      msg, err := w.conn.Recv()
      if !w.running { break }
      if err != nil {
          logrus.Error(err)
          syscall.Kill(syscall.Getpid(), syscall.SIGINT)
          continue
      }
      ...
      err = json.Unmarshal([]byte(msg), &event)
      if err != nil {
          logrus.Error(err)
          syscall.Kill(syscall.Getpid(), syscall.SIGINT)
          continue
      }
      switch event.Type {
      case "audit::proc::report":
          err = w.updateCmd(event.Cmd, event.Judge)
          if err != nil {
              logrus.Error(err)
              syscall.Kill(syscall.Getpid(), syscall.SIGINT)
          }
      case "osinfo::report":
          dog.Kick()
      }
  }
  \<close>
\<close>

definition pass_background :: "(string \<Rightarrow> event option) \<Rightarrow> (string \<Rightarrow> string \<times> string \<times> string)
    \<Rightarrow> tick \<Rightarrow> process_row world \<times> watchdog \<Rightarrow> (process_row world \<times> watchdog) \<times> exit option" where
  "pass_background unmarshal SplitCmd i s =
     (case s of (w, dog) \<Rightarrow>
        let w0 = halt (halt_top i) w in
        if \<not> running w0 then ((w0, dog), Some Returned)
        else
          (case idle (elapsed i) (w0, dog) of (w1, dog1) \<Rightarrow>
             let w2 = halt (halt_recv i) w1 in
             if \<not> running w2 then ((w2, dog1), Some Returned)
             else
               (case recv i of
                  Inl e \<Rightarrow> ((fatal KillRecv e w2, dog1), None)
                | Inr msg \<Rightarrow>
                    (case unmarshal msg of
                       None \<Rightarrow> ((fatal KillDecode JSONError w2, dog1), None)
                     | Some ev \<Rightarrow>
                         if Type ev = ''audit::proc::report'' then
                           (case updateCmd SplitCmd (fault i) (Cmd ev) (Judge ev) w2 of
                              (Some e, w3) \<Rightarrow> ((fatal KillStore e w3, dog1), None)
                            | (None, w3) \<Rightarrow> ((w3, dog1), None))
                         else if Type ev = ''osinfo::report'' then ((w2, Kick dog1), None)
                         else ((w2, dog1), None)))))"

text \<open>
  \<open>run\<close>: the watchdog is made with \<^verbatim>\<open>10*time.Second\<close> before the loop starts.
\<close>

definition run_background :: "(string \<Rightarrow> event option) \<Rightarrow> (string \<Rightarrow> string \<times> string \<times> string)
    \<Rightarrow> process_row world \<Rightarrow> tick list \<Rightarrow> (process_row world \<times> watchdog) \<times> exit" where
  "run_background unmarshal SplitCmd w ticks =
     loop (pass_background unmarshal SplitCmd) (\<lambda>s. running (fst s)) (w, New (10 * Second)) ticks"

text \<open>
  \<open>Stop\<close> in package background. \<open>coreStatus\<close> is what
  \<^verbatim>\<open>w.config.GetInteger("proc::core::status")\<close> returns (\<open>None\<close> for an error, which is
  then overwritten by the result of \<open>Shutdown\<close>), \<open>ProcessCoreEnable\<close> the constant
  of package \<open>uranus/pkg/status\<close>, which is outside the sources.
  \<^verbatim>\<open>
  err = w.conn.Send(`{"type":"user::msg::unsub","section":"audit::proc::report"}`)
  if err != nil { return }
  err = w.conn.Send(`{"type":"user::msg::unsub","section":"osinfo::report"}`)
  if err != nil { return }
  coreStatus, err := w.config.GetInteger("proc::core::status")
  if err == nil && coreStatus == status.ProcessCoreEnable {
      err = w.conn.Send(`{"type":"user::proc::disable"}`)
      if err != nil { return }
  }
  time.Sleep(time.Second)
  w.running = false
  err = w.conn.Shutdown(time.Now())
  if err != nil { return }
  w.wg.Wait()
  w.conn.Close()
  return
  \<close>
\<close>

definition Stop :: "(nat \<Rightarrow> bool) \<Rightarrow> int option \<Rightarrow> int \<Rightarrow> bool \<Rightarrow> process_row world
    \<Rightarrow> error option \<times> process_row world" where
  "Stop net coreStatus ProcessCoreEnable shutdown_fails w =
     (case Send net (MsgUnsub ''audit::proc::report'') w of
        (Some e, w1) \<Rightarrow> (Some e, w1)
      | (None, w1) \<Rightarrow>
          (case Send net (MsgUnsub ''osinfo::report'') w1 of
             (Some e, w2) \<Rightarrow> (Some e, w2)
           | (None, w2) \<Rightarrow>
               if coreStatus = Some ProcessCoreEnable then
                 (case Send net ProcDisable w2 of
                    (Some e, w3) \<Rightarrow> (Some e, w3)
                  | (None, w3) \<Rightarrow> finish_Stop shutdown_fails w3)
               else finish_Stop shutdown_fails w2))"

section \<open>The session middleware (package user)\<close>

record User =
  UserID :: "64 word"
  Username :: string
  AliasName :: string
  Permissions :: "string list"

text \<open>
  What the middleware reads of a request: the method, \<open>URL.Path\<close>, and what
  \<^verbatim>\<open>context.Cookie("session")\<close> returns (\<open>None\<close> for its error).
\<close>

record request =
  Method :: string
  Path :: string
  session :: "string option"

datatype verdict = Next | AbortWithStatus nat

text \<open>
  The lookups of the middleware, in the order made: the read of the session cookie,
  \<open>loggedUser.Get\<close>, \<open>glob.Compile\<close> of a permission and the match of the path.
\<close>

datatype lookup = CookieRead | CacheGet string | GlobCompile string | GlobMatch string

text \<open>
  The loop over the permissions of the user. \<open>Compile\<close> and \<open>Match\<close> stand for
  \<open>glob.Compile\<close> (\<open>None\<close> for an error) and \<open>Match\<close> of \<open>github.com/gobwas/glob\<close>.
  \<^verbatim>\<open>
  for _, p := range user.(User).Permissions {
      g, err := glob.Compile(p)
      if err != nil { continue }
      if !g.Match(context.Request.URL.Path) { continue }
      context.Next()
      return
  }
  context.AbortWithStatus(http.StatusForbidden)
  \<close>
\<close>

fun permitted :: "(string \<Rightarrow> 'g option) \<Rightarrow> ('g \<Rightarrow> string \<Rightarrow> bool) \<Rightarrow> string \<Rightarrow> string list
    \<Rightarrow> verdict \<times> lookup list" where
  "permitted Compile Match path [] = (AbortWithStatus 403, [])"
| "permitted Compile Match path (p # ps) =
     (case Compile p of
        None \<Rightarrow> (case permitted Compile Match path ps of (v, ls) \<Rightarrow> (v, GlobCompile p # ls))
      | Some g \<Rightarrow>
          if \<not> Match g path
          then (case permitted Compile Match path ps of
                  (v, ls) \<Rightarrow> (v, GlobCompile p # GlobMatch p # ls))
          else (Next, [GlobCompile p, GlobMatch p]))"

text \<open>
  \<open>Middleware\<close>. \<open>loggedUser\<close> is the LRU cache of sessions, given as the map from
  session to user it holds (\<open>Get\<close> also marks the entry as recently used, which no
  result of the middleware depends on).
  \<^verbatim>\<open>
  if context.Request.Method == http.MethodGet { context.Next(); return }
  if context.Request.URL.Path == "/user/login" { context.Next(); return }
  session, err := context.Cookie("session")
  if err != nil { context.AbortWithStatus(http.StatusUnauthorized); return }
  user, ok := loggedUser.Get(session)
  if !ok { context.AbortWithStatus(http.StatusUnauthorized); return }
  \<close>
\<close>

definition Middleware :: "(string \<Rightarrow> 'g option) \<Rightarrow> ('g \<Rightarrow> string \<Rightarrow> bool) \<Rightarrow> (string \<rightharpoonup> User)
    \<Rightarrow> request \<Rightarrow> verdict \<times> lookup list" where
  "Middleware Compile Match loggedUser req =
     (if Method req = ''GET'' then (Next, [])
      else if Path req = ''/user/login'' then (Next, [])
      else case session req of
        None \<Rightarrow> (AbortWithStatus 401, [CookieRead])
      | Some s \<Rightarrow>
          (case loggedUser s of
             None \<Rightarrow> (AbortWithStatus 401, [CookieRead, CacheGet s])
           | Some user \<Rightarrow>
               (case permitted Compile Match (Path req) (Permissions user) of
                  (v, ls) \<Rightarrow> (v, CookieRead # CacheGet s # ls))))"

section \<open>Fixtures\<close>

text \<open>
  A worker that is running and has not sent or logged anything yet, over a given
  table; and a pass in which \<open>Recv\<close> returns a message at once while nothing fails
  and nobody clears \<open>running\<close>.
\<close>

definition idle_world :: "'r list option \<Rightarrow> 'r world" where
  "idle_world t =
     \<lparr>running = True, table = t, sends = [], logged = [], kills = [],
      shut = False, joined = False, closed = False\<rparr>"

definition deliver :: "string \<Rightarrow> tick" where
  "deliver msg =
     \<lparr>halt_top = False, elapsed = 0, recv = Inr msg, halt_recv = False, fault = None\<rparr>"

text \<open>
  A connector on which no \<open>Send\<close> fails, one on which exactly the \<open>Send\<close> call number
  \<open>k\<close> fails (counted from 0), and a stand-in for \<open>process.SplitCmd\<close> in the examples.
\<close>

definition no_failure :: "nat \<Rightarrow> bool" where
  "no_failure n = False"

definition failure_at :: "nat \<Rightarrow> nat \<Rightarrow> bool" where
  "failure_at k n = (n = k)"

definition split_stub :: "string \<Rightarrow> string \<times> string \<times> string" where
  "split_stub cmd = (cmd, cmd, cmd)"

definition rows_of :: "'r list option \<Rightarrow> 'r list" where
  "rows_of t = (case t of None \<Rightarrow> [] | Some rows \<Rightarrow> rows)"

text \<open>
  The messages of the examples, and what \<open>json.Unmarshal\<close> makes of them for the two
  workers: the report of the specification's scenario (the byte 0x5C is the
  backslash of the JSON escape), a heartbeat, a document without \<open>type\<close>, and a
  text that is not JSON (like every other text here).
\<close>

definition ls_cmd :: string where
  "ls_cmd = ''/home'' @ [US] @ ''/bin/ls'' @ [US] @ ''-la''"

definition report_ls :: string where
  \<open>report_ls =
     ''{"type":"audit::proc::report","cmd":"/home'' @ [CHR 0x5C] @ ''u001f/bin/ls''
       @ [CHR 0x5C] @ ''u001f-la","judge":1}''\<close>

definition heartbeat :: string where
  \<open>heartbeat = ''{"type":"osinfo::report"}''\<close>

definition untyped :: string where
  \<open>untyped = ''{"cmd":"ls"}''\<close>

definition garbage :: string where
  \<open>garbage = ''{"type":''\<close>

definition unmarshal_map :: "string \<Rightarrow> (string \<rightharpoonup> jvalue) option" where
  "unmarshal_map =
     map_of
       [(report_ls,
         map_of [(''type'', JString ''audit::proc::report''), (''cmd'', JString ls_cmd),
                 (''judge'', JNumber 1)]),
        (heartbeat, map_of [(''type'', JString ''osinfo::report'')]),
        (untyped, map_of [(''cmd'', JString ''ls'')])]"

definition unmarshal_event :: "string \<Rightarrow> event option" where
  "unmarshal_event =
     map_of
       [(report_ls, \<lparr>Type = ''audit::proc::report'', Cmd = ls_cmd, Judge = 1\<rparr>),
        (heartbeat, \<lparr>Type = ''osinfo::report'', Cmd = '''', Judge = 0\<rparr>),
        (untyped, \<lparr>Type = '''', Cmd = ''ls'', Judge = 0\<rparr>)]"

text \<open>
  For the proofs about package judge: the ids of the rows are distinct (\<open>id\<close> is the
  primary key) and command \<open>C\<close> has no row when \<open>n = 0\<close>, and otherwise one row, whose
  \<open>times\<close> is \<open>n\<close>.
\<close>

definition counted :: "string \<Rightarrow> nat \<Rightarrow> judge_row list \<Rightarrow> bool" where
  "counted C n rows \<longleftrightarrow>
     distinct (map jid rows) \<and>
     (if n = 0 then filter (\<lambda>r. jcmd r = C) rows = []
      else \<exists>r. filter (\<lambda>r. jcmd r = C) rows = [r] \<and> jtimes r = int n)"

section \<open>Unfolding the workers on examples\<close>

lemma copy_runes_pos: "0 < k \<Longrightarrow> copy_runes k (b # bs) = b # copy_runes (k - 1) bs"
  by (cases k) simp_all

lemmas json_defs = marshalled_def rune_size_def in_range_def copy_runes_pos

lemmas judge_defs = run_judge_def pass_judge_def deliver_def halt_def idle_world_def
  unmarshal_map_def report_ls_def heartbeat_def untyped_def updateCmdTimes_def next_id_def
  wrap64_def setTrustedCmd_def Send_def log_error_def ls_cmd_def US_def no_failure_def
  json_defs

lemmas bg_defs = run_background_def pass_background_def deliver_def halt_def idle_world_def
  unmarshal_event_def report_ls_def heartbeat_def untyped_def updateCmd_def next_id_def
  sqlite_incr_def idle_def pass_time_def New_def Kick_def Second_def on_timeout_def fatal_def
  log_error_def ls_cmd_def US_def split_stub_def

section \<open>Round trip of the raw command encoding\<close>

lemma Split_not_Nil: "Split c s \<noteq> []"
  by (induction s) (auto split: list.splits)

lemma Split_no_sep: "c \<notin> set s \<Longrightarrow> Split c s = [s]"
  by (induction s) auto

lemma Split_append_sep:
  "c \<notin> set s \<Longrightarrow> Split c (s @ c # t) = s # Split c t"
  by (induction s) auto

lemma Split_join_with:
  "xs \<noteq> [] \<Longrightarrow> \<forall>x \<in> set xs. c \<notin> set x \<Longrightarrow> Split c (join_with c xs) = xs"
proof (induction c xs rule: join_with.induct)
  case (1 c)
  then show ?case by simp
next
  case (2 c x)
  then show ?case by (simp add: Split_no_sep)
next
  case (3 c x y ys)
  then show ?case by (simp add: Split_append_sep)
qed

lemma foldl_space_join:
  "foldl (\<lambda>acc r. acc @ CHR '' '' # r) a rest = join_with CHR '' '' (a # rest)"
proof (induction rest arbitrary: a rule: rev_induct)
  case Nil
  then show ?case by simp
next
  case (snoc r rest)
  have "join_with c (a # rest @ [r]) = join_with c (a # rest) @ c # r" for c
    by (induction c "a # rest" arbitrary: a rest rule: join_with.induct) auto
  with snoc show ?case by simp
qed

text \<open>
  Claim C8, as amended. When neither the working directory, nor the binary, nor any
  argument token contains the unit separator, and there is at least one argument
  token, splitting the joined command gives back the working directory, the binary,
  and the argument tokens joined by single spaces.
\<close>

theorem ParseHackernelCmd_roundtrip:
  assumes "US \<notin> set workdir" and "US \<notin> set exec"
    and "\<forall>t \<in> set (tok # toks). US \<notin> set t"
  shows "ParseHackernelCmd (encode_cmd workdir exec (tok # toks))
           = Inr (workdir, exec, space_joined (tok # toks))"
proof -
  have "Split US (join_with US (workdir # exec # tok # toks)) = workdir # exec # tok # toks"
    using assms by (intro Split_join_with) auto
  then show ?thesis
    by (simp add: ParseHackernelCmd_def encode_cmd_def space_joined_def foldl_space_join)
qed

theorem ParseHackernelCmd_roundtrip_witness:
  "ParseHackernelCmd (encode_cmd ''/home'' ''/bin/ls'' [''-l'', ''-a''])
     = Inr (''/home'', ''/bin/ls'', ''-l -a'')"
  using ParseHackernelCmd_roundtrip [of "''/home''" "''/bin/ls''" "''-l''" "[''-a'']"]
  by (simp add: US_def space_joined_def)

text \<open>
  Claim C8 as stated fails in two ways: with no argument token the split has two
  pieces only and the read of \<open>raw[2]\<close> panics; and a working directory that holds
  the separator is cut at it.
\<close>

theorem ParseHackernelCmd_roundtrip_counterexample:
  "ParseHackernelCmd (encode_cmd ''/home'' ''/bin/ls'' []) = Inl IndexOutOfRange
   \<and> ParseHackernelCmd (encode_cmd [CHR ''a'', CHR 0x1F, CHR ''b''] ''/bin/ls'' [''-l''])
       = Inr (''a'', ''b'', ''/bin/ls -l'')"
  by (simp add: ParseHackernelCmd_def encode_cmd_def US_def)

section \<open>The session middleware lets every GET through\<close>

text \<open>
  Claim C10. A request whose method is GET is passed on without any lookup: no read
  of the session cookie, no cache lookup, no permission glob. The middleware makes
  a lookup exactly for the requests that are not GET and not for the login path.
\<close>

theorem Middleware_GET_passes:
  "(Method req = ''GET'' \<longrightarrow> Middleware Compile Match loggedUser req = (Next, []))
   \<and> (snd (Middleware Compile Match loggedUser req) \<noteq> []
        \<longleftrightarrow> Method req \<noteq> ''GET'' \<and> Path req \<noteq> ''/user/login'')"
  by (auto simp: Middleware_def split: option.splits prod.splits)

theorem Middleware_GET_passes_witness:
  "Middleware (\<lambda>p. None :: unit option) (\<lambda>g p. False) Map.empty
      \<lparr>Method = ''GET'', Path = ''/user/info'', session = None\<rparr> = (Next, [])"
  using Middleware_GET_passes [of "\<lparr>Method = ''GET'', Path = ''/user/info'', session = None\<rparr>"
      "\<lambda>p. None :: unit option" "\<lambda>g p. False" Map.empty]
  by simp

section \<open>Replay of the trusted commands at startup\<close>

lemma replay_no_fault:
  "replay net None k cs w
     = (None, w\<lparr>sends := sends w @ map (\<lambda>c. TrustedInsert (marshalled c)) cs\<rparr>)"
  by (induction cs arbitrary: k w) (simp_all add: setTrustedCmd_def Send_def)


lemma initTrustedCmd_judge_replays:
  assumes "table w = Some rows"
  shows "initTrustedCmd_judge net None w
           = (None, w\<lparr>sends := sends w @ map (\<lambda>r. TrustedInsert (marshalled (jcmd r)))
                                             (filter (\<lambda>r. 3 \<le> jtimes r) rows)\<rparr>)"
  using assms by (simp add: initTrustedCmd_judge_def replay_no_fault comp_def)

lemma initTrustedCmd_sends:
  assumes "table w = Some rows"
  shows "initTrustedCmd net None w
           = (None, w\<lparr>sends := sends w @ map (\<lambda>r. TrustedInsert (marshalled (pcmd r)))
                                             (filter (\<lambda>r. pstatus r = 2) rows)\<rparr>)"
  using assms by (simp add: initTrustedCmd_def replay_no_fault comp_def)

text \<open>
  A command that is not well-formed UTF-8 is not sent as it is stored: for the
  trusted command of the one byte 0xFF the message reads U+FFFD, which here is the
  command of the other row, whose status is 0.
\<close>

lemma initTrustedCmd_ill_formed:
  "sends (snd (initTrustedCmd no_failure None
     (idle_world (Some
        [\<lparr>pid = 1, pcmd = [CHR 0xFF], pworkdir = ''/'', pbinary = ''a'', pargv = ''a'',
          pcount = 7, pjudge = 1, pstatus = 2\<rparr>,
         \<lparr>pid = 2, pcmd = [CHR 0xEF, CHR 0xBF, CHR 0xBD], pworkdir = ''/'', pbinary = ''b'',
          pargv = ''b'', pcount = 9, pjudge = 0, pstatus = 0\<rparr>]))))
   = [TrustedInsert [CHR 0xEF, CHR 0xBF, CHR 0xBD]]"
  by (simp add: initTrustedCmd_sends idle_world_def json_defs)



section \<open>Shutdown returns at the first error\<close>

lemma finish_Stop_cases:
  "finish_Stop sf w =
     (if sf then (Some ConnError, w\<lparr>running := False, shut := True\<rparr>)
      else (None, w\<lparr>running := False, shut := True, joined := True, closed := True\<rparr>))"
  by (simp add: finish_Stop_def)

text \<open>
  Claim C5, as amended, for \<open>Stop\<close> of both packages. When one of the \<open>Send\<close> calls
  that \<open>Stop\<close> makes fails, the error is returned at once: \<open>running\<close> is left as it
  was, \<open>Shutdown\<close> is not called, the receive loop is not joined and the connector
  is not closed. When all of them succeed, \<open>running\<close> is cleared and \<open>Shutdown\<close> is
  called; if \<open>Shutdown\<close> fails its error is returned without the join and without
  the close; only when nothing fails is the loop joined and the connector closed.
\<close>

theorem Stop_returns_at_first_error:
  fixes w :: "process_row world" and v :: "judge_row world"
  shows
  "(case Stop net coreStatus enable shutdown_fails w of (err, w') \<Rightarrow>
      if \<exists>n \<in> {length (sends w) ..< length (sends w')}. net n
      then err = Some ConnError \<and> running w' = running w \<and> shut w' = shut w
           \<and> joined w' = joined w \<and> closed w' = closed w
      else \<not> running w' \<and> shut w'
           \<and> (if shutdown_fails
                then err = Some ConnError \<and> joined w' = joined w \<and> closed w' = closed w
                else err = None \<and> joined w' \<and> closed w'))
   \<and> (case Stop_judge net shutdown_fails v of (err, v') \<Rightarrow>
      if \<exists>n \<in> {length (sends v) ..< length (sends v')}. net n
      then err = Some ConnError \<and> running v' = running v \<and> shut v' = shut v
           \<and> joined v' = joined v \<and> closed v' = closed v
      else \<not> running v' \<and> shut v'
           \<and> (if shutdown_fails
                then err = Some ConnError \<and> joined v' = joined v \<and> closed v' = closed v
                else err = None \<and> joined v' \<and> closed v'))"
proof -
  have up2: "{k ..< Suc (Suc k)} = {k, Suc k}" for k :: nat by auto
  have up3: "{k ..< Suc (Suc (Suc k))} = {k, Suc k, Suc (Suc k)}" for k :: nat by auto
  show ?thesis
    by (simp add: Stop_def Stop_judge_def Send_def finish_Stop_cases up2 up3)
qed

theorem Stop_returns_at_first_error_witness:
  "Stop no_failure (Some 1) 1 False (idle_world (Some []))
     = (None,
        (idle_world (Some []))
          \<lparr>running := False,
           sends := [MsgUnsub ''audit::proc::report'', MsgUnsub ''osinfo::report'', ProcDisable],
           shut := True, joined := True, closed := True\<rparr>)
   \<and> Stop_judge no_failure False (idle_world (Some []))
     = (None,
        (idle_world (Some []))
          \<lparr>running := False, sends := [MsgUnsub ''audit::proc::report'', ProcDisable],
           shut := True, joined := True, closed := True\<rparr>)"
  using Stop_returns_at_first_error
    [where net = no_failure and coreStatus = "Some 1" and enable = 1
       and shutdown_fails = False and w = "idle_world (Some [])"
       and v = "idle_world (Some [])"]
  by (simp add: Stop_def Stop_judge_def Send_def finish_Stop_def idle_world_def no_failure_def)

text \<open>
  Claim C5 as stated fails: when the first unsubscribe of the richer worker cannot be
  sent, \<open>Stop\<close> returns with \<open>running\<close> still set, no join and no close; and when
  \<open>Shutdown\<close> of the simpler worker fails, \<open>Stop\<close> returns without join and close.
\<close>

theorem Stop_counterexample:
  "fst (Stop (failure_at 0) None 1 False (idle_world (Some []))) = Some ConnError
   \<and> running (snd (Stop (failure_at 0) None 1 False (idle_world (Some []))))
   \<and> \<not> shut (snd (Stop (failure_at 0) None 1 False (idle_world (Some []))))
   \<and> \<not> joined (snd (Stop (failure_at 0) None 1 False (idle_world (Some []))))
   \<and> \<not> closed (snd (Stop (failure_at 0) None 1 False (idle_world (Some []))))
   \<and> fst (Stop_judge no_failure True (idle_world (Some []))) = Some ConnError
   \<and> \<not> running (snd (Stop_judge no_failure True (idle_world (Some []))))
   \<and> \<not> joined (snd (Stop_judge no_failure True (idle_world (Some []))))
   \<and> \<not> closed (snd (Stop_judge no_failure True (idle_world (Some []))))"
  by (simp add: Stop_def Stop_judge_def Send_def finish_Stop_def idle_world_def
      no_failure_def failure_at_def)

section \<open>The store is append and update only\<close>

lemma sqlite_incr_ge: "c \<le> sqlite_incr c"
  by (simp add: sqlite_incr_def)

lemma replay_table: "table (snd (replay net f k cs w)) = table w"
  by (induction cs arbitrary: k w) (simp_all add: setTrustedCmd_def Send_def)

lemma initTrustedCmd_table: "table (snd (initTrustedCmd net f w)) = table w"
  by (simp add: initTrustedCmd_def replay_table split: option.splits)

lemma initDB_rows: "rows_of (table (snd (initDB f w))) = rows_of (table w)"
  by (simp add: initDB_def rows_of_def Let_def split: option.splits)

lemma filter_cmd_empty: "length (filter (\<lambda>r. pcmd r = c) rows) = 0 \<longleftrightarrow> c \<notin> pcmd ` set rows"
  by (auto simp: filter_empty_conv)

lemma map_unmatched:
  "c \<notin> pcmd ` set rows \<Longrightarrow> map (\<lambda>r. if pcmd r = c then g r else r) rows = rows"
  by (induction rows) auto

lemma updateCmd_rows:
  "rows_of (table (snd (updateCmd S f c j w))) = rows_of (table w)
   \<or> (c \<in> pcmd ` set (rows_of (table w)) \<and>
      rows_of (table (snd (updateCmd S f c j w)))
        = map (\<lambda>r. if pcmd r = c then r\<lparr>pcount := sqlite_incr (pcount r), pjudge := j\<rparr> else r)
            (rows_of (table w)))
   \<or> (c \<notin> pcmd ` set (rows_of (table w)) \<and>
      (\<exists>r. pcmd r = c \<and> rows_of (table (snd (updateCmd S f c j w))) = rows_of (table w) @ [r]))"
proof (cases "table w")
  case None
  then show ?thesis by (simp add: updateCmd_def)
next
  case (Some rows)
  show ?thesis
  proof (cases "c \<in> pcmd ` set rows")
    case True
    then have "length (filter (\<lambda>r. pcmd r = c) rows) \<noteq> 0"
      by (simp only: filter_cmd_empty) simp
    with Some True show ?thesis
      by (simp add: updateCmd_def rows_of_def Let_def)
  next
    case False
    then have "length (filter (\<lambda>r. pcmd r = c) rows) = 0"
      by (simp only: filter_cmd_empty) simp
    with Some False show ?thesis
      by (simp add: updateCmd_def rows_of_def Let_def map_unmatched split: prod.splits)
  qed
qed


text \<open>
  Claim C9. Whatever the database driver does, the three store operations of the
  richer worker (\<open>initDB\<close>, \<open>initTrustedCmd\<close>, \<open>updateCmd\<close>) keep the commands of the
  table unique, keep every row at its place (no row is deleted), and leave the id,
  command, workdir, binary, argv and status of every row as they were, with a count
  that is not smaller than before. A row is changed at all only by \<open>updateCmd\<close>, and
  only the row of the reported command.
\<close>

theorem store_operations_preserve:
  fixes w :: "process_row world"
  assumes "w' \<in> {snd (initDB f w), snd (initTrustedCmd net f w), snd (updateCmd SplitCmd f c j w)}"
  shows "(distinct (map pcmd (rows_of (table w))) \<longrightarrow> distinct (map pcmd (rows_of (table w'))))
       \<and> length (rows_of (table w)) \<le> length (rows_of (table w'))
       \<and> (\<forall>k < length (rows_of (table w)).
            pid (rows_of (table w') ! k) = pid (rows_of (table w) ! k)
          \<and> pcmd (rows_of (table w') ! k) = pcmd (rows_of (table w) ! k)
          \<and> pworkdir (rows_of (table w') ! k) = pworkdir (rows_of (table w) ! k)
          \<and> pbinary (rows_of (table w') ! k) = pbinary (rows_of (table w) ! k)
          \<and> pargv (rows_of (table w') ! k) = pargv (rows_of (table w) ! k)
          \<and> pstatus (rows_of (table w') ! k) = pstatus (rows_of (table w) ! k)
          \<and> pcount (rows_of (table w) ! k) \<le> pcount (rows_of (table w') ! k)
          \<and> (rows_of (table w') ! k \<noteq> rows_of (table w) ! k
               \<longrightarrow> w' = snd (updateCmd SplitCmd f c j w) \<and> pcmd (rows_of (table w) ! k) = c))"
proof -
  let ?rows = "rows_of (table w)" and ?rows' = "rows_of (table w')"
  let ?g = "\<lambda>r. if pcmd r = c then r\<lparr>pcount := sqlite_incr (pcount r), pjudge := j\<rparr> else r"
  consider (same) "?rows' = ?rows"
    | (upd) "w' = snd (updateCmd SplitCmd f c j w)" "?rows' = map ?g ?rows"
    | (ins) "c \<notin> pcmd ` set ?rows" "\<exists>r. pcmd r = c \<and> ?rows' = ?rows @ [r]"
    using assms updateCmd_rows [of SplitCmd f c j w]
    by (auto simp: initDB_rows initTrustedCmd_table)
  then show ?thesis
  proof cases
    case same
    then show ?thesis by simp
  next
    case upd
    have cmds: "map pcmd (map ?g ?rows) = map pcmd ?rows"
      by (induction ?rows) auto
    have "distinct (map pcmd ?rows) \<longrightarrow> distinct (map pcmd ?rows')"
      unfolding upd(2) cmds by (rule impI)
    moreover have "length ?rows \<le> length ?rows'"
      using upd(2) by simp
    moreover have "\<forall>k < length ?rows. ?rows' ! k = ?g (?rows ! k)"
      using upd(2) by simp
    ultimately show ?thesis
      using upd(1) by (simp add: sqlite_incr_ge)
  next
    case ins
    then obtain r where r: "pcmd r = c" "?rows' = ?rows @ [r]" by blast
    with ins(1) show ?thesis by (auto simp: nth_append)
  qed
qed

theorem store_operations_preserve_witness:
  "snd (updateCmd split_stub None ''ls'' 0
         (idle_world (Some [\<lparr>pid = 1, pcmd = ''ls'', pworkdir = ''/'', pbinary = ''ls'',
                              pargv = ''ls'', pcount = 2, pjudge = 1, pstatus = 0\<rparr>])))
     = idle_world (Some [\<lparr>pid = 1, pcmd = ''ls'', pworkdir = ''/'', pbinary = ''ls'',
                           pargv = ''ls'', pcount = 3, pjudge = 0, pstatus = 0\<rparr>])"
  using store_operations_preserve
    [where w = "idle_world (Some [\<lparr>pid = 1, pcmd = ''ls'', pworkdir = ''/'', pbinary = ''ls'',
                              pargv = ''ls'', pcount = 2, pjudge = 1, pstatus = 0\<rparr>])"
       and f = None and c = "''ls''" and j = 0 and SplitCmd = split_stub
       and w' = "snd (updateCmd split_stub None ''ls'' 0
         (idle_world (Some [\<lparr>pid = 1, pcmd = ''ls'', pworkdir = ''/'', pbinary = ''ls'',
                              pargv = ''ls'', pcount = 2, pjudge = 1, pstatus = 0\<rparr>])))"]
  by (simp add: updateCmd_def idle_world_def sqlite_incr_def split_stub_def)

section \<open>Counting the reports of a command\<close>

lemma updateCmd_no_fault:
  assumes "table w = Some rows"
  shows "updateCmd S None c j w =
     (None, w\<lparr>table := Some
        (if c \<in> pcmd ` set rows
         then map (\<lambda>r. if pcmd r = c then r\<lparr>pcount := sqlite_incr (pcount r), pjudge := j\<rparr> else r) rows
         else rows @ [\<lparr>pid = next_id (map pid rows), pcmd = c, pworkdir = fst (S c),
                        pbinary = fst (snd (S c)), pargv = snd (snd (S c)), pcount = 1,
                        pjudge = j, pstatus = 0\<rparr>])\<rparr>)"
proof (cases "c \<in> pcmd ` set rows")
  case True
  then have "length (filter (\<lambda>r. pcmd r = c) rows) \<noteq> 0"
    by (simp only: filter_cmd_empty) simp
  with assms True show ?thesis
    by (simp add: updateCmd_def Let_def)
next
  case False
  then have "length (filter (\<lambda>r. pcmd r = c) rows) = 0"
    by (simp only: filter_cmd_empty) simp
  with assms False show ?thesis
    by (simp add: updateCmd_def Let_def map_unmatched split: prod.splits)
qed

lemma filter_bump:
  "filter (\<lambda>r. pcmd r = C)
     (map (\<lambda>r. if pcmd r = c then r\<lparr>pcount := sqlite_incr (pcount r), pjudge := j\<rparr> else r) rows)
   = (if c = C
      then map (\<lambda>r. r\<lparr>pcount := sqlite_incr (pcount r), pjudge := j\<rparr>) (filter (\<lambda>r. pcmd r = C) rows)
      else filter (\<lambda>r. pcmd r = C) rows)"
  by (induction rows) auto

lemma sqlite_incr_small: "0 \<le> c \<Longrightarrow> c < 2 ^ 63 - 1 \<Longrightarrow> sqlite_incr c = c + 1"
  by (simp add: sqlite_incr_def)

lemma reports_background:
  fixes w :: "process_row world"
  assumes "table w = Some rows" and "C \<notin> pcmd ` set rows" and "length rs < 2 ^ 63"
  shows "\<exists>rows'. table (fold (\<lambda>(c, j) v. snd (updateCmd S None c j v)) rs w) = Some rows'
          \<and> (if C \<notin> fst ` set rs then filter (\<lambda>r. pcmd r = C) rows' = []
              else \<exists>r. filter (\<lambda>r. pcmd r = C) rows' = [r]
                     \<and> pcount r = int (count_list (map fst rs) C)
                     \<and> pjudge r = snd (last (filter (\<lambda>p. fst p = C) rs))
                     \<and> pstatus r = 0)"
  using assms(3)
proof (induction rs rule: rev_induct)
  case Nil
  with assms(1,2) show ?case by (auto simp: filter_empty_conv)
next
  case (snoc x rs)
  obtain c j where x: "x = (c, j)" by (cases x)
  let ?mid = "fold (\<lambda>(c, j) v. snd (updateCmd S None c j v)) rs w"
  from snoc obtain rows1 where mid: "table ?mid = Some rows1"
    and inv: "if C \<notin> fst ` set rs then filter (\<lambda>r. pcmd r = C) rows1 = []
              else \<exists>r. filter (\<lambda>r. pcmd r = C) rows1 = [r]
                     \<and> pcount r = int (count_list (map fst rs) C)
                     \<and> pjudge r = snd (last (filter (\<lambda>p. fst p = C) rs))
                     \<and> pstatus r = 0"
    by auto
  have bound: "int (count_list (map fst rs) C) < 2 ^ 63 - 1"
  proof -
    have "count_list (map fst rs) C \<le> length rs"
      using count_le_length [of "map fst rs" C] by simp
    moreover have "Suc (length rs) < 2 ^ 63" using snoc.prems by simp
    ultimately have "Suc (count_list (map fst rs) C) < 2 ^ 63" by linarith
    then have "int (Suc (count_list (map fst rs) C)) < 2 ^ 63"
      by (metis of_nat_less_iff of_nat_numeral of_nat_power)
    then show ?thesis by simp
  qed
  have step: "fold (\<lambda>(c, j) v. snd (updateCmd S None c j v)) (rs @ [x]) w
      = snd (updateCmd S None c j ?mid)"
    by (simp add: x)
  show ?case
  proof (cases "c = C")
    case False
    then have "C \<notin> fst ` set (rs @ [x]) \<longleftrightarrow> C \<notin> fst ` set rs"
      by (auto simp: x)
    moreover have "count_list (map fst (rs @ [x])) C = count_list (map fst rs) C"
      using False by (simp add: x)
    moreover have "filter (\<lambda>p. fst p = C) (rs @ [x]) = filter (\<lambda>p. fst p = C) rs"
      using False by (simp add: x)
    ultimately show ?thesis
      using inv False unfolding step
      by (simp add: updateCmd_no_fault [OF mid] filter_bump)
  next
    case True
    show ?thesis
    proof (cases "C \<in> fst ` set rs")
      case seen: True
      with inv obtain r where r: "filter (\<lambda>r. pcmd r = C) rows1 = [r]"
        "pcount r = int (count_list (map fst rs) C)" "pstatus r = 0"
        by auto
      from r(1) have "r \<in> set (filter (\<lambda>r. pcmd r = C) rows1)" by simp
      then have "C \<in> pcmd ` set rows1" by auto
      moreover have "sqlite_incr (pcount r) = pcount r + 1"
        using bound r(2) by (intro sqlite_incr_small) simp_all
      ultimately show ?thesis
        using True r unfolding step
        by (simp add: updateCmd_no_fault [OF mid] filter_bump x)
    next
      case fresh: False
      with inv have none: "filter (\<lambda>r. pcmd r = C) rows1 = []" by simp
      then have "C \<notin> pcmd ` set rows1" by (auto simp: filter_empty_conv)
      moreover have "count_list (map fst rs) C = 0"
        using fresh by (simp add: count_list_0_iff)
      moreover have "filter (\<lambda>p. fst p = C) rs = []"
        using fresh by (auto simp: filter_empty_conv)
      ultimately show ?thesis
        using True none unfolding step
        by (simp add: updateCmd_no_fault [OF mid] x)
    qed
  qed
qed

lemma foldr_max_ge: "x \<in> set ids \<Longrightarrow> x \<le> foldr max ids (0::nat)"
  by (induction ids) (auto simp: max_def)

lemma next_id_fresh: "next_id ids \<notin> set ids"
proof
  assume "next_id ids \<in> set ids"
  then have "next_id ids \<le> foldr max ids 0" by (rule foldr_max_ge)
  then show False by (simp add: next_id_def)
qed

lemma wrap64_small: "- (2 ^ 63) \<le> x \<Longrightarrow> x < 2 ^ 63 \<Longrightarrow> wrap64 x = x"
  by (simp add: wrap64_def)

lemma find_in_filter:
  "find P xs = Some x \<Longrightarrow> x \<in> set (filter P xs)"
  by (induction xs) (auto split: if_splits)

lemma filter_update_by_id:
  "filter (\<lambda>x. jcmd x = C) (map (\<lambda>x. if jid x = jid r then x\<lparr>jtimes := t\<rparr> else x) rows)
     = map (\<lambda>x. if jid x = jid r then x\<lparr>jtimes := t\<rparr> else x) (filter (\<lambda>x. jcmd x = C) rows)"
  by (induction rows) auto

lemma id_determines_row:
  "distinct (map jid rows) \<Longrightarrow> r \<in> set rows \<Longrightarrow> \<forall>x \<in> set rows. jid x = jid r \<longrightarrow> x = r"
  by (auto simp: distinct_map inj_on_def)

lemma updateCmdTimes_counted:
  assumes tab: "table w = Some rows" and inv: "counted C n rows" and bound: "int n < 2 ^ 63 - 1"
  shows "\<exists>rows' t. updateCmdTimes None c w = (Inr t, w\<lparr>table := Some rows'\<rparr>)
           \<and> counted C (if c = C then Suc n else n) rows'
           \<and> (c = C \<longrightarrow> t = int (Suc n))"
proof (cases "find (\<lambda>r. jcmd r = c) rows")
  case None
  then have absent: "c \<notin> jcmd ` set rows"
    by (auto simp: find_None_iff)
  let ?new = "\<lparr>jid = next_id (map jid rows), jcmd = c, jtimes = 1\<rparr>"
  have run: "updateCmdTimes None c w = (Inr 1, w\<lparr>table := Some (rows @ [?new])\<rparr>)"
    using tab None by (simp add: updateCmdTimes_def)
  have dist: "distinct (map jid (rows @ [?new]))"
    using inv next_id_fresh [of "map jid rows"] by (simp add: counted_def)
  have "counted C (if c = C then Suc n else n) (rows @ [?new]) \<and> (c = C \<longrightarrow> 1 = int (Suc n))"
  proof (cases "c = C")
    case True
    with absent have none: "filter (\<lambda>r. jcmd r = C) rows = []"
      by (auto simp: filter_empty_conv)
    with inv have "n = 0" by (auto simp: counted_def split: if_splits)
    with True dist none show ?thesis
      by (simp add: counted_def)
  next
    case False
    with dist inv show ?thesis by (simp add: counted_def)
  qed
  with run show ?thesis by blast
next
  case (Some r)
  then have rin: "r \<in> set rows" and rc: "jcmd r = c"
    using find_in_filter [OF Some] by auto
  let ?t = "wrap64 (jtimes r + 1)"
  let ?g = "\<lambda>x. if jid x = jid r then x\<lparr>jtimes := ?t\<rparr> else x"
  let ?rows' = "map ?g rows"
  have run: "updateCmdTimes None c w = (Inr ?t, w\<lparr>table := Some ?rows'\<rparr>)"
    using tab Some by (simp add: updateCmdTimes_def Let_def)
  have dist0: "distinct (map jid rows)" using inv by (simp add: counted_def)
  have ids: "map jid ?rows' = map jid rows" by (induction rows) auto
  have dist: "distinct (map jid ?rows')" unfolding ids by (rule dist0)
  have flt: "filter (\<lambda>x. jcmd x = C) ?rows' = map ?g (filter (\<lambda>x. jcmd x = C) rows)"
    by (rule filter_update_by_id)
  have "counted C (if c = C then Suc n else n) ?rows' \<and> (c = C \<longrightarrow> ?t = int (Suc n))"
  proof (cases "c = C")
    case False
    have "map ?g (filter (\<lambda>x. jcmd x = C) rows) = filter (\<lambda>x. jcmd x = C) rows"
    proof (rule map_idI)
      fix x assume "x \<in> set (filter (\<lambda>x. jcmd x = C) rows)"
      then have "x \<in> set rows" "jcmd x = C" by auto
      with id_determines_row [OF dist0 rin] rc False have "jid x \<noteq> jid r" by auto
      then show "?g x = x" by simp
    qed
    with False dist flt inv show ?thesis by (simp add: counted_def)
  next
    case True
    have mem: "r \<in> set (filter (\<lambda>r. jcmd r = C) rows)"
      using find_in_filter [OF Some] True by simp
    have n: "n \<noteq> 0"
    proof
      assume "n = 0"
      with inv have "filter (\<lambda>r. jcmd r = C) rows = []" by (simp add: counted_def)
      with mem show False by simp
    qed
    with inv obtain r' where r': "filter (\<lambda>r. jcmd r = C) rows = [r']" "jtimes r' = int n"
      by (auto simp: counted_def)
    from mem have "r = r'" unfolding r'(1) by simp
    with r' have one: "filter (\<lambda>r. jcmd r = C) rows = [r]" and tm: "jtimes r = int n"
      by simp_all
    have "?t = int n + 1"
      using bound tm by (intro wrap64_small [THEN trans]) simp_all
    with dist flt True one show ?thesis by (simp add: counted_def)
  qed
  with run show ?thesis by blast
qed


lemma reports_judge:
  fixes w :: "judge_row world"
  assumes "table w = Some rows" and "distinct (map jid rows)" and "C \<notin> jcmd ` set rows"
    and "length cs < 2 ^ 63"
  shows "\<exists>rows'. table (fold (\<lambda>c v. snd (updateCmdTimes None c v)) cs w) = Some rows'
           \<and> counted C (count_list cs C) rows'"
  using assms(4)
proof (induction cs rule: rev_induct)
  case Nil
  with assms(1-3) show ?case by (auto simp: counted_def filter_empty_conv)
next
  case (snoc c cs)
  let ?mid = "fold (\<lambda>c v. snd (updateCmdTimes None c v)) cs w"
  from snoc obtain rows1 where mid: "table ?mid = Some rows1"
    and inv: "counted C (count_list cs C) rows1"
    by auto
  have "count_list cs C \<le> length cs" by (rule count_le_length)
  moreover have "Suc (length cs) < 2 ^ 63" using snoc.prems by simp
  ultimately have "Suc (count_list cs C) < 2 ^ 63" by linarith
  then have "int (Suc (count_list cs C)) < 2 ^ 63"
    by (metis of_nat_less_iff of_nat_numeral of_nat_power)
  then have bound: "int (count_list cs C) < 2 ^ 63 - 1" by simp
  from updateCmdTimes_counted [OF mid inv bound, of c]
  show ?case by (auto split: if_splits)
qed



text \<open>
  Claim C4. Take a command \<open>C\<close> that has no row yet, and any sequence of reports
  (command and judgment) that reports \<open>C\<close> at least once, given one after the other to
  \<open>updateCmd\<close> of the richer worker, and, without the judgments, to \<open>updateCmdTimes\<close> of
  the simpler one, with a database driver that does not fail and fewer than \<open>2 ^ 63\<close>
  reports. Afterwards the table holds exactly one row for \<open>C\<close>; its count is the number
  of reports of \<open>C\<close> in the sequence, whatever other commands were reported in
  between; in the richer worker its judgment is that of the last report of \<open>C\<close> and
  its status is 0 (unclassified). After the first report of \<open>C\<close> that is count 1 and
  the judgment of that report.
\<close>

theorem report_counts:
  fixes w :: "process_row world" and v :: "judge_row world"
  assumes "table w = Some rows" and "C \<notin> pcmd ` set rows"
    and "table v = Some jrows" and "distinct (map jid jrows)" and "C \<notin> jcmd ` set jrows"
    and "C \<in> fst ` set rs" and "length rs < 2 ^ 63"
  shows "(\<exists>rows' r.
            table (fold (\<lambda>(c, j) x. snd (updateCmd SplitCmd None c j x)) rs w) = Some rows'
          \<and> filter (\<lambda>r. pcmd r = C) rows' = [r]
          \<and> pcount r = int (count_list (map fst rs) C)
          \<and> pjudge r = snd (last (filter (\<lambda>p. fst p = C) rs))
          \<and> pstatus r = 0)
       \<and> (\<exists>jrows' r.
            table (fold (\<lambda>c x. snd (updateCmdTimes None c x)) (map fst rs) v) = Some jrows'
          \<and> filter (\<lambda>r. jcmd r = C) jrows' = [r]
          \<and> jtimes r = int (count_list (map fst rs) C))"
proof
  from reports_background [OF assms(1,2,7), of SplitCmd] assms(6)
  show "\<exists>rows' r.
            table (fold (\<lambda>(c, j) x. snd (updateCmd SplitCmd None c j x)) rs w) = Some rows'
          \<and> filter (\<lambda>r. pcmd r = C) rows' = [r]
          \<and> pcount r = int (count_list (map fst rs) C)
          \<and> pjudge r = snd (last (filter (\<lambda>p. fst p = C) rs))
          \<and> pstatus r = 0"
    by auto
next
  have len: "length (map fst rs) < 2 ^ 63" using assms(7) by simp
  from assms(6) have "count_list (map fst rs) C \<noteq> 0"
    by (simp add: count_list_0_iff)
  with reports_judge [OF assms(3,4,5) len]
  show "\<exists>jrows' r.
            table (fold (\<lambda>c x. snd (updateCmdTimes None c x)) (map fst rs) v) = Some jrows'
          \<and> filter (\<lambda>r. jcmd r = C) jrows' = [r]
          \<and> jtimes r = int (count_list (map fst rs) C)"
    by (auto simp: counted_def)
qed

theorem report_counts_witness:
  "map (\<lambda>r. (pcount r, pjudge r, pstatus r))
     (filter (\<lambda>r. pcmd r = ''ls'')
        (rows_of (table (fold (\<lambda>(c, j) x. snd (updateCmd split_stub None c j x))
                           [(''ls'', 1), (''ps'', 1), (''ls'', 0)] (idle_world (Some []))))))
     = [(2, 0, 0)]
   \<and> map jtimes
     (filter (\<lambda>r. jcmd r = ''ls'')
        (rows_of (table (fold (\<lambda>c x. snd (updateCmdTimes None c x))
                           (map fst [(''ls'', 1::int), (''ps'', 1), (''ls'', 0)])
                           (idle_world (Some []))))))
     = [2]"
  using report_counts
    [where w = "idle_world (Some [])" and v = "idle_world (Some [])" and rows = "[]"
       and jrows = "[]" and C = "''ls''" and rs = "[(''ls'', 1), (''ps'', 1), (''ls'', 0)]"
       and SplitCmd = split_stub]
  by (simp add: idle_world_def updateCmd_def updateCmdTimes_def sqlite_incr_def wrap64_def
      next_id_def rows_of_def split_stub_def)

section \<open>Trust insertion while the worker runs\<close>










section \<open>Messages that do not decode\<close>

text \<open>
  Claim C2, as amended. While the worker is running and nobody stops it: in the
  richer worker a message that \<open>json.Unmarshal\<close> rejects is logged, the process is sent
  SIGINT, and the loop goes on with the next message; a message that decodes but
  whose \<open>type\<close> is neither of the two known ones (an absent \<open>type\<close> decodes to the empty
  string) is passed over without a log line and without a signal. In the simpler
  worker a message that \<open>json.Unmarshal\<close> rejects is logged and the loop goes on, with
  no signal.
\<close>

theorem undecodable_message:
  fixes w :: "process_row world" and v :: "judge_row world"
  assumes "running w" and "running v" and "\<not> halt_top i" and "\<not> halt_recv i"
    and "recv i = Inr msg"
  shows
   "(unmarshal msg = None \<longrightarrow>
       loop (pass_background unmarshal SplitCmd) alive (w, dog) (i # ticks)
         = loop (pass_background unmarshal SplitCmd) alive
             (fatal KillDecode JSONError (fst (idle (elapsed i) (w, dog))),
              snd (idle (elapsed i) (w, dog))) ticks)
    \<and> (\<forall>ev. unmarshal msg = Some ev \<and> Type ev \<noteq> ''audit::proc::report''
              \<and> Type ev \<noteq> ''osinfo::report'' \<longrightarrow>
       loop (pass_background unmarshal SplitCmd) alive (w, dog) (i # ticks)
         = loop (pass_background unmarshal SplitCmd) alive (idle (elapsed i) (w, dog)) ticks)
    \<and> (unmarshal' msg = None \<longrightarrow>
       loop (pass_judge unmarshal' net) alive' v (i # ticks)
         = loop (pass_judge unmarshal' net) alive' (log_error JSONError v) ticks)"
proof -
  have run1: "running (fst (idle (elapsed i) (w, dog)))"
    using assms(1) by (simp add: idle_def on_timeout_def split: prod.splits)
  show ?thesis
    using assms run1
    by (auto simp: pass_background_def pass_judge_def halt_def Let_def split: prod.splits)
qed

theorem undecodable_message_witness:
  "run_background unmarshal_event split_stub (idle_world (Some [])) [deliver garbage, deliver untyped]
     = (((idle_world (Some []))\<lparr>logged := [ErrorLine JSONError], kills := [KillDecode]\<rparr>,
         New (10 * Second)), Blocked)
   \<and> run_judge unmarshal_map no_failure (idle_world (Some [])) [deliver garbage]
     = ((idle_world (Some []))\<lparr>logged := [ErrorLine JSONError]\<rparr>, Blocked)"
  using undecodable_message
    [where w = "idle_world (Some [])" and v = "idle_world (Some [])" and i = "deliver garbage"
       and msg = garbage and unmarshal = unmarshal_event and unmarshal' = unmarshal_map
       and SplitCmd = split_stub and dog = "New (10 * Second)" and ticks = "[deliver untyped]"
       and alive = "\<lambda>s. running (fst s)" and alive' = running and net = no_failure]
  by (simp add: judge_defs bg_defs garbage_def)

text \<open>
  Claim C2 as stated fails: on a text that is not JSON the richer worker requests the
  termination of the process; and on a document without \<open>type\<close> the unchecked type
  assertion of the simpler worker panics.
\<close>

theorem drop_as_nonfatal_counterexample:
  "kills (fst (fst (run_background unmarshal_event split_stub (idle_world (Some []))
                      [deliver garbage])))
     = [KillDecode]
   \<and> snd (run_judge unmarshal_map no_failure (idle_world (Some [])) [deliver untyped])
     = Crashed TypeAssertion"
  by (simp add: judge_defs bg_defs garbage_def)

section \<open>Stopping, and errors of the receive call\<close>

text \<open>
  Claim C6, as amended. In the richer worker, a pass that finds \<open>running\<close> cleared,
  at the loop condition or after \<open>Recv\<close> has returned, leaves the loop without looking
  at what \<open>Recv\<close> returned; a receive error while \<open>running\<close> is set is logged, the
  process is sent SIGINT, and the loop goes on. In the simpler worker the loop also
  returns when it finds \<open>running\<close> cleared at the loop condition; a receive error is
  logged if \<open>running\<close> is still set, not logged otherwise, no signal is sent, and
  the loop goes on to its next test of \<open>running\<close>.
\<close>

theorem stop_and_receive_error:
  fixes w :: "process_row world" and v :: "judge_row world"
  assumes "running w" and "running v"
  shows
   "(halt_top i \<longrightarrow>
       loop (pass_background unmarshal SplitCmd) alive (w, dog) (i # ticks)
         = ((w\<lparr>running := False\<rparr>, dog), Returned))
    \<and> (\<not> halt_top i \<and> halt_recv i \<longrightarrow>
       loop (pass_background unmarshal SplitCmd) alive (w, dog) (i # ticks)
         = (((fst (idle (elapsed i) (w, dog)))\<lparr>running := False\<rparr>,
             snd (idle (elapsed i) (w, dog))), Returned))
    \<and> (\<forall>e. \<not> halt_top i \<and> \<not> halt_recv i \<and> recv i = Inl e \<longrightarrow>
       loop (pass_background unmarshal SplitCmd) alive (w, dog) (i # ticks)
         = loop (pass_background unmarshal SplitCmd) alive
             (fatal KillRecv e (fst (idle (elapsed i) (w, dog))),
              snd (idle (elapsed i) (w, dog))) ticks)
    \<and> (halt_top i \<longrightarrow>
       loop (pass_judge unmarshal' net) alive' v (i # ticks) = (v\<lparr>running := False\<rparr>, Returned))
    \<and> (\<forall>e. \<not> halt_top i \<and> recv i = Inl e \<longrightarrow>
       loop (pass_judge unmarshal' net) alive' v (i # ticks)
         = loop (pass_judge unmarshal' net) alive'
             (if halt_recv i then v\<lparr>running := False\<rparr> else log_error e v) ticks)"
proof -
  have run1: "running (fst (idle (elapsed i) (w, dog)))"
    using assms(1) by (simp add: idle_def on_timeout_def split: prod.splits)
  show ?thesis
    using assms run1
    by (auto simp: pass_background_def pass_judge_def halt_def Let_def split: prod.splits)
qed

theorem stop_and_receive_error_witness:
  "run_background unmarshal_event split_stub (idle_world (Some []))
      [\<lparr>halt_top = False, elapsed = 0, recv = Inl ConnError, halt_recv = False, fault = None\<rparr>,
       \<lparr>halt_top = False, elapsed = 0, recv = Inl ConnError, halt_recv = True, fault = None\<rparr>]
     = (((idle_world (Some []))
           \<lparr>running := False, logged := [ErrorLine ConnError], kills := [KillRecv]\<rparr>,
         New (10 * Second)), Returned)"
  using stop_and_receive_error
    [where w = "idle_world (Some [])" and v = "idle_world (Some [])"
       and i = "\<lparr>halt_top = False, elapsed = 0, recv = Inl ConnError, halt_recv = False,
                  fault = None\<rparr>"
       and unmarshal = unmarshal_event and unmarshal' = unmarshal_map
       and SplitCmd = split_stub and dog = "New (10 * Second)"
       and ticks = "[\<lparr>halt_top = False, elapsed = 0, recv = Inl ConnError, halt_recv = True,
                      fault = None\<rparr>]"
       and alive = "\<lambda>s. running (fst s)" and alive' = running and net = no_failure]
  by (simp add: bg_defs judge_defs)

text \<open>
  Claim C6 as stated fails in the simpler worker: a receive error while running is
  logged without any termination signal; and a report that \<open>Recv\<close> returns after
  \<open>running\<close> was cleared is still recorded before the loop returns.
\<close>

theorem stop_and_receive_error_counterexample:
  "run_judge unmarshal_map no_failure (idle_world (Some []))
      [\<lparr>halt_top = False, elapsed = 0, recv = Inl ConnError, halt_recv = False, fault = None\<rparr>]
     = ((idle_world (Some []))\<lparr>logged := [ErrorLine ConnError], kills := []\<rparr>, Blocked)
   \<and> run_judge unmarshal_map no_failure (idle_world (Some []))
      [\<lparr>halt_top = False, elapsed = 0, recv = Inr report_ls, halt_recv = True, fault = None\<rparr>]
     = ((idle_world (Some [\<lparr>jid = 1, jcmd = ls_cmd, jtimes = 1\<rparr>]))\<lparr>running := False\<rparr>,
        Returned)"
  by (simp add: judge_defs)

section \<open>The watchdog of the receive loop\<close>

lemma idle_cases:
  "idle d (w, dog) =
     (case remaining dog of
        None \<Rightarrow> (w, dog)
      | Some r \<Rightarrow> if r \<le> d then (on_timeout w, dog\<lparr>remaining := None\<rparr>)
                  else (w, dog\<lparr>remaining := Some (r - d)\<rparr>))"
  by (simp add: idle_def pass_time_def split: option.splits)

lemma updateCmd_keeps:
  "updateCmd S f c j w = (e, w') \<Longrightarrow> kills w' = kills w \<and> running w' = running w"
  by (auto simp: updateCmd_def Let_def split: option.splits prod.splits if_splits)

lemma pass_background_quiet:
  assumes "running w" and "\<not> halt_top i" and "\<not> halt_recv i"
    and "\<forall>m ev. recv i = Inr m \<and> unmarshal m = Some ev \<longrightarrow> Type ev \<noteq> ''osinfo::report''"
  shows "\<exists>w'. pass_background unmarshal S i (w, dog)
                = ((w', snd (idle (elapsed i) (w, dog))), None)
           \<and> running w'
           \<and> count_list (kills w') KillTimeout
               = count_list (kills (fst (idle (elapsed i) (w, dog)))) KillTimeout"
proof -
  obtain w1 dog1 where idl: "idle (elapsed i) (w, dog) = (w1, dog1)"
    by (cases "idle (elapsed i) (w, dog)")
  have run1: "running w1"
    using assms(1) idl by (auto simp: idle_cases on_timeout_def split: option.splits if_splits)
  show ?thesis
    using assms run1 idl
    by (auto simp: pass_background_def halt_def Let_def fatal_def log_error_def
        split: sum.splits option.splits prod.splits dest!: updateCmd_keeps)
qed

lemma loop_quiet:
  assumes "running w"
    and "\<forall>i \<in> set ticks. \<not> halt_top i \<and> \<not> halt_recv i
           \<and> (\<forall>m ev. recv i = Inr m \<and> unmarshal m = Some ev \<longrightarrow> Type ev \<noteq> ''osinfo::report'')"
  shows "count_list (kills (fst (idle d (fst (loop (pass_background unmarshal S) alive (w, dog) ticks)))))
            KillTimeout
         = count_list (kills w) KillTimeout
           + (case remaining dog of
                None \<Rightarrow> 0
              | Some r \<Rightarrow> if r \<le> sum_list (map elapsed ticks) + d then 1 else 0)"
  using assms
proof (induction ticks arbitrary: w dog)
  case Nil
  then show ?case
    by (simp add: idle_cases on_timeout_def split: option.splits)
next
  case (Cons i ticks)
  from Cons.prems have i: "\<not> halt_top i" "\<not> halt_recv i"
    "\<forall>m ev. recv i = Inr m \<and> unmarshal m = Some ev \<longrightarrow> Type ev \<noteq> ''osinfo::report''"
    by (simp, simp, meson list.set_intros(1))
  from pass_background_quiet [OF Cons.prems(1) i, of S dog]
  obtain w' where pass: "pass_background unmarshal S i (w, dog)
                = ((w', snd (idle (elapsed i) (w, dog))), None)"
    and run': "running w'"
    and cnt: "count_list (kills w') KillTimeout
               = count_list (kills (fst (idle (elapsed i) (w, dog)))) KillTimeout"
    by blast
  have rest: "\<forall>i \<in> set ticks. \<not> halt_top i \<and> \<not> halt_recv i
           \<and> (\<forall>m ev. recv i = Inr m \<and> unmarshal m = Some ev \<longrightarrow> Type ev \<noteq> ''osinfo::report'')"
    using Cons.prems(2) by (meson list.set_intros(2))
  note IH = Cons.IH [OF run' rest, of "snd (idle (elapsed i) (w, dog))"]
  have "loop (pass_background unmarshal S) alive (w, dog) (i # ticks)
      = loop (pass_background unmarshal S) alive (w', snd (idle (elapsed i) (w, dog))) ticks"
    using pass by simp
  with IH cnt show ?case
    by (auto simp: idle_cases on_timeout_def split: option.splits if_splits)
qed


text \<open>
  Claim C7, over the watchdog as the specification describes it. The receive loop of
  the richer worker starts with a watchdog of 10 seconds (in nanoseconds), armed.
  Its callback adds the line \<^verbatim>\<open>osinfo::report timeout\<close> to the log and sends one SIGINT.
  A pass that receives an \<^verbatim>\<open>osinfo::report\<close> message goes on with the watchdog's
  deadline a full interval away, and, when the message came before the deadline (or
  after the watchdog had fired), without the callback having run. And when the
  loop, neither stopped nor given a heartbeat, has waited for its messages and then
  \<open>d\<close> nanoseconds more, the callback has run once if that time is 10 seconds or more
  and not at all if it is less, however long the time.
\<close>

theorem watchdog_supervision:
  fixes w :: "process_row world"
  assumes "running w"
  shows
   "snd (fst (run_background unmarshal SplitCmd w []))
      = \<lparr>interval = 10000000000, remaining = Some 10000000000\<rparr>
    \<and> logged (on_timeout w) = logged w @ [TextLine ''osinfo::report timeout'']
    \<and> kills (on_timeout w) = kills w @ [KillTimeout]
    \<and> (\<forall>m ev. \<not> halt_top i \<and> \<not> halt_recv i \<and> recv i = Inr m \<and> unmarshal m = Some ev
              \<and> Type ev = ''osinfo::report'' \<longrightarrow>
          snd (pass_background unmarshal SplitCmd i (w, dog)) = None
          \<and> snd (fst (pass_background unmarshal SplitCmd i (w, dog)))
              = dog\<lparr>remaining := Some (interval dog)\<rparr>
          \<and> ((case remaining dog of None \<Rightarrow> True | Some r \<Rightarrow> elapsed i < r) \<longrightarrow>
               fst (fst (pass_background unmarshal SplitCmd i (w, dog))) = w))
    \<and> ((\<forall>i \<in> set ticks. \<not> halt_top i \<and> \<not> halt_recv i
              \<and> (\<forall>m ev. recv i = Inr m \<and> unmarshal m = Some ev
                     \<longrightarrow> Type ev \<noteq> ''osinfo::report'')) \<longrightarrow>
          count_list (kills (fst (idle d (fst (run_background unmarshal SplitCmd w ticks)))))
              KillTimeout
            = count_list (kills w) KillTimeout
              + (if 10 * Second \<le> sum_list (map elapsed ticks) + d then 1 else 0))"
proof (intro conjI)
  show "snd (fst (run_background unmarshal SplitCmd w []))
      = \<lparr>interval = 10000000000, remaining = Some 10000000000\<rparr>"
    by (simp add: run_background_def New_def Second_def)
  show "logged (on_timeout w) = logged w @ [TextLine ''osinfo::report timeout'']"
    by (simp add: on_timeout_def)
  show "kills (on_timeout w) = kills w @ [KillTimeout]"
    by (simp add: on_timeout_def)
  show "\<forall>m ev. \<not> halt_top i \<and> \<not> halt_recv i \<and> recv i = Inr m \<and> unmarshal m = Some ev
              \<and> Type ev = ''osinfo::report'' \<longrightarrow>
          snd (pass_background unmarshal SplitCmd i (w, dog)) = None
          \<and> snd (fst (pass_background unmarshal SplitCmd i (w, dog)))
              = dog\<lparr>remaining := Some (interval dog)\<rparr>
          \<and> ((case remaining dog of None \<Rightarrow> True | Some r \<Rightarrow> elapsed i < r) \<longrightarrow>
               fst (fst (pass_background unmarshal SplitCmd i (w, dog))) = w)"
    using assms
    by (auto simp: pass_background_def halt_def idle_cases Kick_def on_timeout_def
        split: option.splits)
  show "(\<forall>i \<in> set ticks. \<not> halt_top i \<and> \<not> halt_recv i
              \<and> (\<forall>m ev. recv i = Inr m \<and> unmarshal m = Some ev
                     \<longrightarrow> Type ev \<noteq> ''osinfo::report'')) \<longrightarrow>
          count_list (kills (fst (idle d (fst (run_background unmarshal SplitCmd w ticks)))))
              KillTimeout
            = count_list (kills w) KillTimeout
              + (if 10 * Second \<le> sum_list (map elapsed ticks) + d then 1 else 0)"
  proof
    assume quiet: "\<forall>i \<in> set ticks. \<not> halt_top i \<and> \<not> halt_recv i
              \<and> (\<forall>m ev. recv i = Inr m \<and> unmarshal m = Some ev
                     \<longrightarrow> Type ev \<noteq> ''osinfo::report'')"
    from loop_quiet [where S = SplitCmd and d = d and alive = "\<lambda>s. running (fst s)"
        and dog = "New (10 * Second)", OF assms quiet]
    show "count_list (kills (fst (idle d (fst (run_background unmarshal SplitCmd w ticks)))))
              KillTimeout
            = count_list (kills w) KillTimeout
              + (if 10 * Second \<le> sum_list (map elapsed ticks) + d then 1 else 0)"
      by (simp add: run_background_def New_def)
  qed
qed

theorem watchdog_supervision_witness:
  "kills (fst (idle (10 * Second)
       (fst (run_background unmarshal_event split_stub (idle_world (Some [])) []))))
     = [KillTimeout]
   \<and> kills (fst (idle (30 * Second)
       (fst (run_background unmarshal_event split_stub (idle_world (Some []))
          [\<lparr>halt_top = False, elapsed = 4 * Second, recv = Inr report_ls, halt_recv = False,
            fault = None\<rparr>]))))
     = [KillTimeout]
   \<and> kills (fst (idle (9 * Second)
       (fst (run_background unmarshal_event split_stub (idle_world (Some []))
          [\<lparr>halt_top = False, elapsed = 9 * Second, recv = Inr heartbeat, halt_recv = False,
            fault = None\<rparr>]))))
     = []"
  using watchdog_supervision
    [where w = "idle_world (Some [])" and unmarshal = unmarshal_event
       and SplitCmd = split_stub and d = "30 * Second"
       and ticks = "[\<lparr>halt_top = False, elapsed = 4 * Second, recv = Inr report_ls,
                      halt_recv = False, fault = None\<rparr>]"
       and i = "\<lparr>halt_top = False, elapsed = 9 * Second, recv = Inr heartbeat,
                  halt_recv = False, fault = None\<rparr>"
       and dog = "New (10 * Second)"]
  by (simp add: bg_defs)

end
